theory Spec2Isabelle
  imports Complex_Main "HOL-Library.Word"
begin

section \<open>Data model of graph.cpp\<close>

text \<open>
  \<^verbatim>\<open>std::size_t\<close> is taken at 64 bits, its width on the usual 64-bit targets;
  indices stored in the adjacency lists and all index arguments have this type. The value stored in a node is a
  \<^verbatim>\<open>double\<close> that the four mutating functions only copy, never compute with, so it
  is kept as a type parameter \<open>'v\<close>.
\<close>

type_synonym size_t = "64 word"

definition SIZE_MAX :: size_t where
  \<comment> \<open>\<^verbatim>\<open>std::numeric_limits<std::size_t>::max()\<close>, that is \<open>2 ^ 64 - 1\<close>\<close>
  "SIZE_MAX = 18446744073709551615"

datatype GraphStatus =
    GRAPH_SUCCESS
  | GRAPH_ERR_INVALID_PARENT
  | GRAPH_ERR_INVALID_NODE
  | GRAPH_ERR_INVALID_EDGE

record 'v Graph =
  node_data :: "'v list"
  adj :: "size_t list list"

definition Graph_empty :: "'v Graph" where
  \<comment> \<open>\<^verbatim>\<open>Graph g;\<close> both vectors are value-initialised to empty\<close>
  "Graph_empty = \<lparr>node_data = [], adj = []\<rparr>"

section \<open>The vector primitives the code uses\<close>

definition vsize :: "'a list \<Rightarrow> size_t" where
  \<comment> \<open>\<^verbatim>\<open>v.size()\<close>, a \<^verbatim>\<open>size_t\<close>\<close>
  "vsize xs = of_nat (length xs)"

definition push_back :: "'a list \<Rightarrow> 'a \<Rightarrow> 'a list" where
  "push_back xs x = xs @ [x]"

fun erase_pos :: "nat \<Rightarrow> 'a list \<Rightarrow> 'a list" where
  \<comment> \<open>\<^verbatim>\<open>v.erase(v.begin() + i)\<close> for a position inside the vector; the callers guard
      the position, since erasing at or past \<^verbatim>\<open>end()\<close> is undefined behaviour\<close>
  "erase_pos i [] = []"
| "erase_pos 0 (x # xs) = xs"
| "erase_pos (Suc i) (x # xs) = x # erase_pos i xs"

primrec std_find :: "'a \<Rightarrow> 'a list \<Rightarrow> nat" where
  \<comment> \<open>\<^verbatim>\<open>std::find(v.begin(), v.end(), t) - v.begin()\<close>: the position of the leftmost
      element equal to \<open>t\<close>, or \<open>length v\<close> (that is \<^verbatim>\<open>end()\<close>) when there is none\<close>
  "std_find t [] = 0"
| "std_find t (x # xs) = (if x = t then 0 else Suc (std_find t xs))"

primrec std_remove :: "'a \<Rightarrow> 'a list \<Rightarrow> 'a list" where
  \<comment> \<open>\<^verbatim>\<open>v.erase(std::remove(v.begin(), v.end(), t), v.end())\<close>: the elements different
      from \<open>t\<close>, in their order\<close>
  "std_remove t [] = []"
| "std_remove t (x # xs) = (if x = t then std_remove t xs else x # std_remove t xs)"

primrec for_each :: "('a \<Rightarrow> 'a) \<Rightarrow> 'a list \<Rightarrow> 'a list" where
  \<comment> \<open>\<^verbatim>\<open>std::for_each\<close> with a lambda that updates each element in place\<close>
  "for_each f [] = []"
| "for_each f (x # xs) = f x # for_each f xs"

section \<open>The four mutating operations\<close>

text \<open>
  Every function takes the graph and returns the updated graph together with the values
  it writes through its out-parameters. The result is \<open>None\<close> where the C++ indexes or
  erases a vector out of range, which is undefined behaviour.
\<close>

definition Graph_addNode ::
  "'v Graph \<Rightarrow> 'v \<Rightarrow> size_t \<Rightarrow> ('v Graph \<times> size_t \<times> GraphStatus) option" where
  "Graph_addNode g val parent =
     (let new_index = vsize (node_data g);
          g1 = g\<lparr>node_data := push_back (node_data g) val, adj := push_back (adj g) []\<rparr>
      in if parent \<noteq> SIZE_MAX then
           if parent < new_index then
             if unat parent < length (adj g1) then
               Some (g1\<lparr>adj := (adj g1)[unat parent :=
                                   push_back (adj g1 ! unat parent) new_index]\<rparr>,
                     new_index, GRAPH_SUCCESS)
             else None
           else Some (g1, new_index, GRAPH_ERR_INVALID_PARENT)
         else Some (g1, new_index, GRAPH_SUCCESS))"

definition Graph_addEdge ::
  "'v Graph \<Rightarrow> size_t \<Rightarrow> size_t \<Rightarrow> ('v Graph \<times> GraphStatus) option" where
  "Graph_addEdge g source target =
     (if source \<ge> vsize (node_data g) \<or> target \<ge> vsize (node_data g) then
        Some (g, GRAPH_ERR_INVALID_EDGE)
      else if unat source < length (adj g) then
        Some (g\<lparr>adj := (adj g)[unat source := push_back (adj g ! unat source) target]\<rparr>,
              GRAPH_SUCCESS)
      else None)"

definition Graph_removeEdge ::
  "'v Graph \<Rightarrow> size_t \<Rightarrow> size_t \<Rightarrow> ('v Graph \<times> GraphStatus) option" where
  "Graph_removeEdge g source target =
     (if source \<ge> vsize (adj g) then Some (g, GRAPH_ERR_INVALID_EDGE)
      else if unat source < length (adj g) then
        (let neighbors = adj g ! unat source;
             it = std_find target neighbors
         in if it \<noteq> length neighbors then
              Some (g\<lparr>adj := (adj g)[unat source := erase_pos it neighbors]\<rparr>, GRAPH_SUCCESS)
            else Some (g, GRAPH_ERR_INVALID_EDGE))
      else None)"

definition reindex :: "size_t \<Rightarrow> size_t list \<Rightarrow> size_t list" where
  \<comment> \<open>the body of the loop over \<^verbatim>\<open>g.adj\<close> in \<^verbatim>\<open>Graph_removeNode\<close>\<close>
  "reindex node neighbors =
     for_each (\<lambda>n. if n > node then n - 1 else n) (std_remove node neighbors)"

definition Graph_removeNode ::
  "'v Graph \<Rightarrow> size_t \<Rightarrow> ('v Graph \<times> GraphStatus) option" where
  \<comment> \<open>the range-for over \<^verbatim>\<open>g.adj\<close> rewrites every remaining list with \<open>reindex\<close>\<close>
  "Graph_removeNode g node =
     (if node \<ge> vsize (node_data g) then Some (g, GRAPH_ERR_INVALID_NODE)
      else if unat node < length (node_data g) \<and> unat node < length (adj g) then
        Some (g\<lparr>node_data := erase_pos (unat node) (node_data g),
                adj := for_each (reindex node) (erase_pos (unat node) (adj g))\<rparr>,
              GRAPH_SUCCESS)
      else None)"

section \<open>Sequences of calls\<close>

datatype 'v Op =
    AddNode 'v size_t
  | AddEdge size_t size_t
  | RemoveEdge size_t size_t
  | RemoveNode size_t

fun Graph_apply :: "'v Graph \<Rightarrow> 'v Op \<Rightarrow> ('v Graph \<times> GraphStatus) option" where
  "Graph_apply g (AddNode val parent) =
     (case Graph_addNode g val parent of
        None \<Rightarrow> None
      | Some (g', out_node, status) \<Rightarrow> Some (g', status))"
| "Graph_apply g (AddEdge source target) = Graph_addEdge g source target"
| "Graph_apply g (RemoveEdge source target) = Graph_removeEdge g source target"
| "Graph_apply g (RemoveNode node) = Graph_removeNode g node"

fun run_ops :: "'v Graph \<Rightarrow> 'v Op list \<Rightarrow> 'v Graph option" where
  \<comment> \<open>the calls are made one after the other, whatever status each one reports\<close>
  "run_ops g [] = Some g"
| "run_ops g (op # ops) =
     (case Graph_apply g op of
        None \<Rightarrow> None
      | Some (g', status) \<Rightarrow> run_ops g' ops)"

section \<open>State predicates\<close>

definition lengths_agree :: "'v Graph \<Rightarrow> bool" where
  "lengths_agree g \<longleftrightarrow> length (adj g) = length (node_data g)"

definition representable :: "'v Graph \<Rightarrow> bool" where
  \<comment> \<open>the node count fits \<^verbatim>\<open>size_t\<close>, as the size of every real vector does\<close>
  "representable g \<longleftrightarrow> length (node_data g) < 2 ^ 64"

definition no_dangling :: "'v Graph \<Rightarrow> bool" where
  "no_dangling g \<longleftrightarrow> list_all (list_all (\<lambda>t. unat t < length (node_data g))) (adj g)"

definition old_position :: "size_t \<Rightarrow> nat \<Rightarrow> nat" where
  \<comment> \<open>the index, before \<open>k\<close> is removed, of the node that has index \<open>i\<close> afterwards\<close>
  "old_position k i = (if i < unat k then i else Suc i)"

section \<open>Example states\<close>

definition G2 :: "real Graph" where
  "G2 = \<lparr>node_data = [1.23, 4.56], adj = [[1], []]\<rparr>"

definition G222 :: "real Graph" where
  "G222 = \<lparr>node_data = [0.5, 1.5, 2.5], adj = [[], [2, 2, 2], [0]]\<rparr>"

definition demo_ops :: "real Op list" where
  "demo_ops = [AddNode 1.23 SIZE_MAX, AddNode 4.56 0]"

definition G1 :: "real Graph" where
  "G1 = \<lparr>node_data = [1.23], adj = [[]]\<rparr>"

definition demo_ops2 :: "real Op list" where
  "demo_ops2 = [AddNode 1.23 SIZE_MAX, AddNode 4.56 7, RemoveNode 0]"

definition G1b :: "real Graph" where
  "G1b = \<lparr>node_data = [4.56], adj = [[]]\<rparr>"

definition demo_ops3 :: "real Op list" where
  "demo_ops3 = [AddNode 1.23 SIZE_MAX, AddNode 4.56 0, AddEdge 0 1]"

definition G2e :: "real Graph" where
  "G2e = \<lparr>node_data = [1.23, 4.56], adj = [[1, 1], []]\<rparr>"

definition G3 :: "real Graph" where
  "G3 = \<lparr>node_data = [1.23, 4.56, 7.5], adj = [[1, 2], [0, 1, 2, 1], [2, 1, 1, 0]]\<rparr>"

definition G3_without_1 :: "real Graph" where
  "G3_without_1 = \<lparr>node_data = [1.23, 7.5], adj = [[1], [1, 0]]\<rparr>"

definition demo_ops4 :: "real Op list" where
  "demo_ops4 = [AddNode 1.23 SIZE_MAX, AddNode 4.56 SIZE_MAX, AddNode 7.5 0]"

definition G3c :: "real Graph" where
  "G3c = \<lparr>node_data = [1.23, 4.56, 7.5], adj = [[2], [], []]\<rparr>"

definition G3c_without_1 :: "real Graph" where
  "G3c_without_1 = \<lparr>node_data = [1.23, 7.5], adj = [[1], []]\<rparr>"

section \<open>Facts about the vector primitives\<close>

lemma erase_pos_take_drop: "erase_pos i xs = take i xs @ drop (Suc i) xs"
  by (induction i xs rule: erase_pos.induct) simp_all

lemma length_erase_pos: "i < length xs \<Longrightarrow> length (erase_pos i xs) = length xs - 1"
  by (simp add: erase_pos_take_drop)

lemma nth_erase_pos:
  "k < length xs \<Longrightarrow> i < length xs - 1 \<Longrightarrow> erase_pos k xs ! i = xs ! (if i < k then i else Suc i)"
  by (auto simp: erase_pos_take_drop nth_append min_def)

lemma set_erase_pos: "set (erase_pos i xs) \<subseteq> set xs"
  by (induction i xs rule: erase_pos.induct) auto

lemma std_remove_filter: "std_remove t xs = filter (\<lambda>x. x \<noteq> t) xs"
  by (induction xs) simp_all

lemma for_each_map: "for_each f xs = map f xs"
  by (induction xs) simp_all

lemma std_find_le: "std_find t xs \<le> length xs"
  by (induction xs) simp_all

lemma std_find_end: "std_find t xs = length xs \<longleftrightarrow> t \<notin> set xs"
proof (induction xs)
  case Nil
  show ?case by simp
next
  case (Cons x xs)
  have "std_find t xs \<le> length xs" by (rule std_find_le)
  with Cons show ?case by auto
qed

lemma erase_find_remove1: "erase_pos (std_find t xs) xs = remove1 t xs"
  by (induction xs) auto

lemma erase_find_split:
  "t \<in> set xs \<Longrightarrow>
   \<exists>pre post. xs = pre @ t # post \<and> t \<notin> set pre \<and> erase_pos (std_find t xs) xs = pre @ post"
proof (induction xs)
  case Nil
  then show ?case by simp
next
  case (Cons x xs)
  show ?case
  proof (cases "x = t")
    case True
    then have "x # xs = [] @ t # xs \<and> t \<notin> set [] \<and> erase_pos (std_find t (x # xs)) (x # xs) = [] @ xs"
      by simp
    then show ?thesis by blast
  next
    case False
    with Cons.prems have "t \<in> set xs" by simp
    from Cons.IH [OF this] obtain pre post where
      "xs = pre @ t # post" "t \<notin> set pre" "erase_pos (std_find t xs) xs = pre @ post"
      by blast
    with False have "x # xs = (x # pre) @ t # post \<and> t \<notin> set (x # pre)
        \<and> erase_pos (std_find t (x # xs)) (x # xs) = (x # pre) @ post"
      by auto
    then show ?thesis by blast
  qed
qed

lemma unat_vsize_le: "unat (vsize xs) \<le> length xs"
  unfolding vsize_def by (simp add: unat_of_nat)

lemma unat_vsize: "length xs < 2 ^ 64 \<Longrightarrow> unat (vsize xs) = length xs"
  unfolding vsize_def by (simp add: unat_of_nat)

lemma less_vsizeD: "x < vsize xs \<Longrightarrow> unat x < length xs"
  using unat_vsize_le [of xs] by (simp add: word_less_nat_alt)

lemma less_vsize_iff: "length xs < 2 ^ 64 \<Longrightarrow> x < vsize xs \<longleftrightarrow> unat x < length xs"
  by (simp add: word_less_nat_alt unat_vsize)

lemma ge_vsize_iff: "length xs < 2 ^ 64 \<Longrightarrow> vsize xs \<le> x \<longleftrightarrow> length xs \<le> unat x"
  by (simp add: word_le_nat_alt unat_vsize)

lemma unat_minus_one_gt: "(k::size_t) < t \<Longrightarrow> unat (t - 1) = unat t - 1"
  by (metis unat_minus_one word_not_simps(1))

section \<open>Graph_addEdge\<close>

lemma addEdge_invalid:
  assumes "representable g"
    and "length (node_data g) \<le> unat source \<or> length (node_data g) \<le> unat target"
  shows "Graph_addEdge g source target = Some (g, GRAPH_ERR_INVALID_EDGE)"
  using assms by (simp add: Graph_addEdge_def representable_def ge_vsize_iff)

lemma addEdge_valid:
  assumes "lengths_agree g" "representable g"
    and "unat source < length (node_data g)" "unat target < length (node_data g)"
  shows "Graph_addEdge g source target =
     Some (g\<lparr>adj := (adj g)[unat source := adj g ! unat source @ [target]]\<rparr>, GRAPH_SUCCESS)"
  using assms
  by (simp add: Graph_addEdge_def representable_def lengths_agree_def ge_vsize_iff push_back_def)

text \<open>
  Claim C6. In a graph state with \<open>n\<close> nodes, \<open>Graph_addEdge\<close> reports
  \<open>GRAPH_ERR_INVALID_EDGE\<close> and returns the graph as it was when \<open>source \<ge> n\<close> or
  \<open>target \<ge> n\<close>. Otherwise it appends \<open>target\<close> at the end of the adjacency list of
  \<open>source\<close> and reports \<open>GRAPH_SUCCESS\<close>, with no condition on \<open>target\<close> being
  already present or equal to \<open>source\<close>: every successful call raises the number of
  occurrences of \<open>target\<close> in that list by one.
\<close>

theorem addEdge_spec:
  assumes "lengths_agree g" and "representable g"
  shows "(length (node_data g) \<le> unat source \<or> length (node_data g) \<le> unat target \<longrightarrow>
            Graph_addEdge g source target = Some (g, GRAPH_ERR_INVALID_EDGE))
       \<and> (unat source < length (node_data g) \<and> unat target < length (node_data g) \<longrightarrow>
            Graph_addEdge g source target =
              Some (g\<lparr>adj := (adj g)[unat source := adj g ! unat source @ [target]]\<rparr>,
                    GRAPH_SUCCESS))
       \<and> (\<forall>g'. Graph_addEdge g source target = Some (g', GRAPH_SUCCESS) \<longrightarrow>
            count_list (adj g' ! unat source) target =
              Suc (count_list (adj g ! unat source) target))"
proof (intro conjI impI allI)
  assume "length (node_data g) \<le> unat source \<or> length (node_data g) \<le> unat target"
  with assms(2) show "Graph_addEdge g source target = Some (g, GRAPH_ERR_INVALID_EDGE)"
    by (rule addEdge_invalid)
next
  assume "unat source < length (node_data g) \<and> unat target < length (node_data g)"
  with assms show "Graph_addEdge g source target =
      Some (g\<lparr>adj := (adj g)[unat source := adj g ! unat source @ [target]]\<rparr>, GRAPH_SUCCESS)"
    by (simp add: addEdge_valid)
next
  fix g'
  assume ok: "Graph_addEdge g source target = Some (g', GRAPH_SUCCESS)"
  then have "unat source < length (adj g)"
    and "g' = g\<lparr>adj := (adj g)[unat source := adj g ! unat source @ [target]]\<rparr>"
    by (auto simp: Graph_addEdge_def push_back_def split: if_splits)
  then show "count_list (adj g' ! unat source) target =
      Suc (count_list (adj g ! unat source) target)"
    by simp
qed

theorem addEdge_spec_witness:
  "lengths_agree G2 \<and> representable G2
   \<and> Graph_addEdge G2 0 1 = Some (\<lparr>node_data = [1.23, 4.56], adj = [[1, 1], []]\<rparr>, GRAPH_SUCCESS)
   \<and> Graph_addEdge G2 1 1 = Some (\<lparr>node_data = [1.23, 4.56], adj = [[1], [1]]\<rparr>, GRAPH_SUCCESS)
   \<and> Graph_addEdge G2 0 2 = Some (G2, GRAPH_ERR_INVALID_EDGE)
   \<and> Graph_addEdge G2 2 0 = Some (G2, GRAPH_ERR_INVALID_EDGE)"
proof -
  have wf: "lengths_agree G2" "representable G2"
    by (simp_all add: lengths_agree_def representable_def G2_def)
  show ?thesis
    using wf addEdge_spec [OF wf, of 0 1] addEdge_spec [OF wf, of 1 1]
      addEdge_spec [OF wf, of 0 2] addEdge_spec [OF wf, of 2 0]
    by (simp add: G2_def)
qed

section \<open>Graph_removeEdge\<close>

lemma removeEdge_cases:
  assumes "length (adj g) < 2 ^ 64"
  shows "Graph_removeEdge g source target =
     (if length (adj g) \<le> unat source then Some (g, GRAPH_ERR_INVALID_EDGE)
      else if target \<in> set (adj g ! unat source) then
        Some (g\<lparr>adj := (adj g)[unat source := remove1 target (adj g ! unat source)]\<rparr>,
              GRAPH_SUCCESS)
      else Some (g, GRAPH_ERR_INVALID_EDGE))"
  using assms
  by (simp add: Graph_removeEdge_def ge_vsize_iff std_find_end erase_find_remove1 Let_def)

lemma removeEdge_total: "\<exists>g' st. Graph_removeEdge g source target = Some (g', st)"
proof (cases "vsize (adj g) \<le> source")
  case True
  then show ?thesis by (simp add: Graph_removeEdge_def)
next
  case False
  then have "unat source < length (adj g)"
    by (simp add: less_vsizeD)
  with False show ?thesis by (simp add: Graph_removeEdge_def Let_def)
qed

text \<open>
  Claim C5. In a graph state with \<open>n\<close> nodes, \<open>Graph_removeEdge\<close> reports
  \<open>GRAPH_ERR_INVALID_EDGE\<close> when \<open>source \<ge> n\<close>. Otherwise, when \<open>target\<close> occurs in
  the adjacency list of \<open>source\<close>, the list is \<open>pre @ target # post\<close> with no
  \<open>target\<close> in \<open>pre\<close>, and the call replaces it by \<open>pre @ post\<close> and reports
  \<open>GRAPH_SUCCESS\<close>: the leftmost occurrence goes, everything after it stays. When
  \<open>target\<close> does not occur the call reports \<open>GRAPH_ERR_INVALID_EDGE\<close> and returns the
  graph as it was. From the list \<open>[2, 2, 2]\<close>, three calls give \<open>[2, 2]\<close>, \<open>[2]\<close> and
  \<open>[]\<close>, and the fourth reports \<open>GRAPH_ERR_INVALID_EDGE\<close>.
\<close>

theorem removeEdge_spec:
  assumes "lengths_agree g" and "representable g"
  shows "(length (node_data g) \<le> unat source \<longrightarrow>
            Graph_removeEdge g source target = Some (g, GRAPH_ERR_INVALID_EDGE))
       \<and> (unat source < length (node_data g) \<and> target \<in> set (adj g ! unat source) \<longrightarrow>
            (\<exists>pre post. adj g ! unat source = pre @ target # post \<and> target \<notin> set pre
               \<and> Graph_removeEdge g source target =
                   Some (g\<lparr>adj := (adj g)[unat source := pre @ post]\<rparr>, GRAPH_SUCCESS)))
       \<and> (unat source < length (node_data g) \<and> target \<notin> set (adj g ! unat source) \<longrightarrow>
            Graph_removeEdge g source target = Some (g, GRAPH_ERR_INVALID_EDGE))
       \<and> (unat source < length (node_data g) \<and> adj g ! unat source = [2, 2, 2] \<longrightarrow>
            Graph_removeEdge g source 2 =
              Some (g\<lparr>adj := (adj g)[unat source := [2, 2]]\<rparr>, GRAPH_SUCCESS)
          \<and> Graph_removeEdge (g\<lparr>adj := (adj g)[unat source := [2, 2]]\<rparr>) source 2 =
              Some (g\<lparr>adj := (adj g)[unat source := [2]]\<rparr>, GRAPH_SUCCESS)
          \<and> Graph_removeEdge (g\<lparr>adj := (adj g)[unat source := [2]]\<rparr>) source 2 =
              Some (g\<lparr>adj := (adj g)[unat source := []]\<rparr>, GRAPH_SUCCESS)
          \<and> Graph_removeEdge (g\<lparr>adj := (adj g)[unat source := []]\<rparr>) source 2 =
              Some (g\<lparr>adj := (adj g)[unat source := []]\<rparr>, GRAPH_ERR_INVALID_EDGE))"
proof -
  from assms have len: "length (adj g) < 2 ^ 64" and eq: "length (adj g) = length (node_data g)"
    by (simp_all add: lengths_agree_def representable_def)
  have len': "length (adj (g\<lparr>adj := (adj g)[unat source := ns]\<rparr>)) < 2 ^ 64" for ns
    using len by simp
  have A: "length (node_data g) \<le> unat source \<longrightarrow>
      Graph_removeEdge g source target = Some (g, GRAPH_ERR_INVALID_EDGE)"
    using eq by (simp add: removeEdge_cases [OF len])
  have B: "unat source < length (node_data g) \<and> target \<in> set (adj g ! unat source) \<longrightarrow>
      (\<exists>pre post. adj g ! unat source = pre @ target # post \<and> target \<notin> set pre
         \<and> Graph_removeEdge g source target =
             Some (g\<lparr>adj := (adj g)[unat source := pre @ post]\<rparr>, GRAPH_SUCCESS))"
  proof
    assume h: "unat source < length (node_data g) \<and> target \<in> set (adj g ! unat source)"
    then obtain pre post where sp: "adj g ! unat source = pre @ target # post"
      "target \<notin> set pre"
      "erase_pos (std_find target (adj g ! unat source)) (adj g ! unat source) = pre @ post"
      using erase_find_split [of target "adj g ! unat source"] by blast
    from h eq sp(3) have "Graph_removeEdge g source target =
        Some (g\<lparr>adj := (adj g)[unat source := pre @ post]\<rparr>, GRAPH_SUCCESS)"
      by (simp add: removeEdge_cases [OF len] erase_find_remove1)
    with sp(1,2) show "\<exists>pre post. adj g ! unat source = pre @ target # post \<and> target \<notin> set pre
         \<and> Graph_removeEdge g source target =
             Some (g\<lparr>adj := (adj g)[unat source := pre @ post]\<rparr>, GRAPH_SUCCESS)"
      by blast
  qed
  have C: "unat source < length (node_data g) \<and> target \<notin> set (adj g ! unat source) \<longrightarrow>
      Graph_removeEdge g source target = Some (g, GRAPH_ERR_INVALID_EDGE)"
    using eq by (simp add: removeEdge_cases [OF len])
  have D: "unat source < length (node_data g) \<and> adj g ! unat source = [2, 2, 2] \<longrightarrow>
            Graph_removeEdge g source 2 =
              Some (g\<lparr>adj := (adj g)[unat source := [2, 2]]\<rparr>, GRAPH_SUCCESS)
          \<and> Graph_removeEdge (g\<lparr>adj := (adj g)[unat source := [2, 2]]\<rparr>) source 2 =
              Some (g\<lparr>adj := (adj g)[unat source := [2]]\<rparr>, GRAPH_SUCCESS)
          \<and> Graph_removeEdge (g\<lparr>adj := (adj g)[unat source := [2]]\<rparr>) source 2 =
              Some (g\<lparr>adj := (adj g)[unat source := []]\<rparr>, GRAPH_SUCCESS)
          \<and> Graph_removeEdge (g\<lparr>adj := (adj g)[unat source := []]\<rparr>) source 2 =
              Some (g\<lparr>adj := (adj g)[unat source := []]\<rparr>, GRAPH_ERR_INVALID_EDGE)"
    using eq by (simp add: removeEdge_cases [OF len] removeEdge_cases [OF len'])
  from A B C D show ?thesis by blast
qed

theorem removeEdge_spec_witness:
  "lengths_agree G222 \<and> representable G222
   \<and> Graph_removeEdge G222 3 0 = Some (G222, GRAPH_ERR_INVALID_EDGE)
   \<and> Graph_removeEdge G222 0 1 = Some (G222, GRAPH_ERR_INVALID_EDGE)
   \<and> Graph_removeEdge G222 1 2 = Some (G222\<lparr>adj := [[], [2, 2], [0]]\<rparr>, GRAPH_SUCCESS)
   \<and> Graph_removeEdge (G222\<lparr>adj := [[], [2, 2], [0]]\<rparr>) 1 2 =
       Some (G222\<lparr>adj := [[], [2], [0]]\<rparr>, GRAPH_SUCCESS)
   \<and> Graph_removeEdge (G222\<lparr>adj := [[], [2], [0]]\<rparr>) 1 2 =
       Some (G222\<lparr>adj := [[], [], [0]]\<rparr>, GRAPH_SUCCESS)
   \<and> Graph_removeEdge (G222\<lparr>adj := [[], [], [0]]\<rparr>) 1 2 =
       Some (G222\<lparr>adj := [[], [], [0]]\<rparr>, GRAPH_ERR_INVALID_EDGE)"
proof -
  have wf: "lengths_agree G222" "representable G222"
    by (simp_all add: lengths_agree_def representable_def G222_def)
  show ?thesis
    using wf removeEdge_spec [OF wf, of 3 0] removeEdge_spec [OF wf, of 0 1]
      removeEdge_spec [OF wf, of 1 2]
    by (simp add: G222_def)
qed

section \<open>Failure paths\<close>

text \<open>
  Claim C7. Whenever \<open>Graph_addEdge\<close>, \<open>Graph_removeEdge\<close> or \<open>Graph_removeNode\<close>
  reports a status other than \<open>GRAPH_SUCCESS\<close>, the graph it returns is the graph it was
  given: node values and adjacency lists alike.
\<close>

theorem failure_leaves_graph_unchanged:
  "(\<forall>g' st. Graph_addEdge g source target = Some (g', st) \<and> st \<noteq> GRAPH_SUCCESS \<longrightarrow> g' = g)
   \<and> (\<forall>g' st. Graph_removeEdge g source target = Some (g', st) \<and> st \<noteq> GRAPH_SUCCESS \<longrightarrow> g' = g)
   \<and> (\<forall>g' st. Graph_removeNode g node = Some (g', st) \<and> st \<noteq> GRAPH_SUCCESS \<longrightarrow> g' = g)"
  by (auto simp: Graph_addEdge_def Graph_removeEdge_def Graph_removeNode_def Let_def
      split: if_splits)

theorem failure_leaves_graph_unchanged_witness:
  "Graph_addEdge G2 0 2 = Some (G2, GRAPH_ERR_INVALID_EDGE)
   \<and> Graph_removeEdge G2 1 0 = Some (G2, GRAPH_ERR_INVALID_EDGE)
   \<and> Graph_removeNode G2 2 = Some (G2, GRAPH_ERR_INVALID_NODE)"
proof -
  have a: "\<exists>g'. Graph_addEdge G2 0 2 = Some (g', GRAPH_ERR_INVALID_EDGE)"
    by (simp add: Graph_addEdge_def G2_def vsize_def)
  have b: "\<exists>g'. Graph_removeEdge G2 1 0 = Some (g', GRAPH_ERR_INVALID_EDGE)"
    by (simp add: Graph_removeEdge_def G2_def vsize_def)
  have c: "\<exists>g'. Graph_removeNode G2 2 = Some (g', GRAPH_ERR_INVALID_NODE)"
    by (simp add: Graph_removeNode_def G2_def vsize_def)
  from a b c failure_leaves_graph_unchanged [of G2 0 2 2]
    failure_leaves_graph_unchanged [of G2 1 0 2]
  show ?thesis
    by auto
qed

section \<open>Invariants\<close>

lemma no_dangling_iff:
  "no_dangling g \<longleftrightarrow> (\<forall>ns \<in> set (adj g). \<forall>t \<in> set ns. unat t < length (node_data g))"
  by (simp add: no_dangling_def list_all_iff)

lemma set_reindex:
  "set (reindex node ns) = (\<lambda>n. if n > node then n - 1 else n) ` (set ns - {node})"
  by (auto simp: reindex_def for_each_map std_remove_filter)

lemma reindex_bound:
  assumes "t' \<in> set (reindex node ns)" and "\<forall>t \<in> set ns. unat t < n" and "unat node < n"
  shows "unat t' < n - 1"
proof -
  from assms(1) have "t' \<in> (\<lambda>n. if n > node then n - 1 else n) ` (set ns - {node})"
    by (simp add: set_reindex)
  then obtain t where t: "t \<in> set ns - {node}" "t' = (if t > node then t - 1 else t)"
    by blast
  from t(1) assms(2) have tn: "unat t < n" by blast
  show ?thesis
  proof (cases "t > node")
    case True
    then have "unat (t - 1) = unat t - 1" by (rule unat_minus_one_gt)
    moreover from True have "unat node < unat t" by (simp add: word_less_nat_alt)
    ultimately show ?thesis using t(2) True tn by simp
  next
    case False
    with t(1) have "t < node" by auto
    then have "unat t < unat node" by (simp add: word_less_nat_alt)
    with assms(3) False t(2) show ?thesis by simp
  qed
qed

lemma update_keeps_bound:
  assumes "\<forall>ns \<in> set xs. \<forall>t \<in> set ns. Q t" and "i < length xs"
    and "\<forall>t \<in> set y. t \<in> set (xs ! i) \<or> Q t"
  shows "\<forall>ns \<in> set (xs[i := y]). \<forall>t \<in> set ns. Q t"
proof (intro ballI)
  fix ns t
  assume "ns \<in> set (xs[i := y])" and t: "t \<in> set ns"
  then have "ns = y \<or> ns \<in> set xs"
    using set_update_subset_insert [of xs i y] by auto
  then show "Q t"
  proof
    assume "ns = y"
    with t assms(3) have "t \<in> set (xs ! i) \<or> Q t" by blast
    moreover from assms(2) have "xs ! i \<in> set xs" by simp
    ultimately show ?thesis using assms(1) by blast
  next
    assume "ns \<in> set xs"
    with t assms(1) show ?thesis by blast
  qed
qed

lemma addNode_total:
  assumes "lengths_agree g"
  shows "\<exists>g' out_node st. Graph_addNode g val parent = Some (g', out_node, st) \<and> lengths_agree g'"
proof -
  have "parent < vsize (node_data g) \<Longrightarrow> unat parent < Suc (length (adj g))"
    using assms less_vsizeD [of parent "node_data g"] by (simp add: lengths_agree_def)
  with assms show ?thesis
    by (simp add: Graph_addNode_def Let_def push_back_def lengths_agree_def)
qed

lemma addEdge_total:
  assumes "lengths_agree g"
  shows "\<exists>g' st. Graph_addEdge g source target = Some (g', st) \<and> lengths_agree g'"
proof -
  have "\<not> vsize (node_data g) \<le> source \<Longrightarrow> unat source < length (adj g)"
    using assms less_vsizeD [of source "node_data g"] by (simp add: lengths_agree_def)
  with assms show ?thesis
    by (auto simp: Graph_addEdge_def lengths_agree_def)
qed

lemma removeEdge_lengths:
  assumes "lengths_agree g"
  shows "\<exists>g' st. Graph_removeEdge g source target = Some (g', st) \<and> lengths_agree g'"
proof -
  have "\<not> vsize (adj g) \<le> source \<Longrightarrow> unat source < length (adj g)"
    using less_vsizeD [of source "adj g"] by simp
  with assms show ?thesis
    by (auto simp: Graph_removeEdge_def lengths_agree_def Let_def)
qed

lemma removeNode_total:
  assumes "lengths_agree g"
  shows "\<exists>g' st. Graph_removeNode g node = Some (g', st) \<and> lengths_agree g'"
proof -
  have "\<not> vsize (node_data g) \<le> node \<Longrightarrow> unat node < length (node_data g)"
    using less_vsizeD [of node "node_data g"] by simp
  with assms show ?thesis
    by (auto simp: Graph_removeNode_def lengths_agree_def for_each_map length_erase_pos)
qed

lemma apply_lengths_agree:
  assumes "lengths_agree g"
  shows "\<exists>g' st. Graph_apply g op = Some (g', st) \<and> lengths_agree g'"
proof (cases op)
  case (AddNode val parent)
  from addNode_total [OF assms, of val parent] show ?thesis
    by (auto simp: AddNode)
next
  case (AddEdge source target)
  from addEdge_total [OF assms, of source target] show ?thesis
    by (simp add: AddEdge)
next
  case (RemoveEdge source target)
  from removeEdge_lengths [OF assms, of source target] show ?thesis
    by (simp add: RemoveEdge)
next
  case (RemoveNode node)
  from removeNode_total [OF assms, of node] show ?thesis
    by (simp add: RemoveNode)
qed

lemma addNode_no_dangling:
  assumes "no_dangling g" and "Graph_addNode g val parent = Some (g', out_node, st)"
  shows "no_dangling g'"
proof -
  let ?Q = "\<lambda>t::size_t. unat t < Suc (length (node_data g))"
  have new: "?Q (vsize (node_data g))"
    using unat_vsize_le [of "node_data g"] by simp
  from assms(1) have old: "\<forall>ns \<in> set (adj g @ [[]]). \<forall>t \<in> set ns. ?Q t"
    by (auto simp: no_dangling_iff intro: less_SucI)
  have upd: "\<forall>ns \<in> set ((adj g @ [[]])[i := (adj g @ [[]]) ! i @ [vsize (node_data g)]]).
      \<forall>t \<in> set ns. ?Q t" if "i < length (adj g @ [[]])" for i
    using old that by (rule update_keeps_bound) (use new in auto)
  from assms(2) consider
    "g' = g\<lparr>node_data := node_data g @ [val], adj := adj g @ [[]]\<rparr>"
    | "unat parent < length (adj g @ [[]])"
      "g' = g\<lparr>node_data := node_data g @ [val],
             adj := (adj g @ [[]])[unat parent :=
                      (adj g @ [[]]) ! unat parent @ [vsize (node_data g)]]\<rparr>"
    by (auto simp: Graph_addNode_def Let_def push_back_def split: if_splits)
  then show ?thesis
  proof cases
    case 1
    with old show ?thesis by (simp add: no_dangling_iff)
  next
    case 2
    from upd [OF 2(1)] 2(2) show ?thesis by (simp add: no_dangling_iff)
  qed
qed

lemma addEdge_no_dangling:
  assumes "no_dangling g" and "Graph_addEdge g source target = Some (g', st)"
  shows "no_dangling g'"
proof (cases "st = GRAPH_SUCCESS")
  case False
  with assms show ?thesis
    by (auto simp: Graph_addEdge_def split: if_splits)
next
  case True
  with assms(2) have src: "unat source < length (adj g)"
    and tgt: "target < vsize (node_data g)"
    and g': "g' = g\<lparr>adj := (adj g)[unat source := adj g ! unat source @ [target]]\<rparr>"
    by (auto simp: Graph_addEdge_def push_back_def split: if_splits)
  from tgt have "unat target < length (node_data g)" by (rule less_vsizeD)
  then have "\<forall>t \<in> set (adj g ! unat source @ [target]).
      t \<in> set (adj g ! unat source) \<or> unat t < length (node_data g)"
    by auto
  with assms(1) src have "\<forall>ns \<in> set ((adj g)[unat source := adj g ! unat source @ [target]]).
      \<forall>t \<in> set ns. unat t < length (node_data g)"
    unfolding no_dangling_iff by (rule update_keeps_bound)
  then show ?thesis by (simp add: g' no_dangling_iff)
qed

lemma removeEdge_no_dangling:
  assumes "no_dangling g" and "Graph_removeEdge g source target = Some (g', st)"
  shows "no_dangling g'"
proof (cases "st = GRAPH_SUCCESS")
  case False
  with assms show ?thesis
    by (auto simp: Graph_removeEdge_def Let_def split: if_splits)
next
  case True
  with assms(2) have src: "unat source < length (adj g)"
    and g': "g' = g\<lparr>adj := (adj g)[unat source :=
        erase_pos (std_find target (adj g ! unat source)) (adj g ! unat source)]\<rparr>"
    by (auto simp: Graph_removeEdge_def Let_def split: if_splits)
  have "\<forall>t \<in> set (erase_pos (std_find target (adj g ! unat source)) (adj g ! unat source)).
      t \<in> set (adj g ! unat source) \<or> unat t < length (node_data g)"
    using set_erase_pos [of "std_find target (adj g ! unat source)" "adj g ! unat source"]
    by auto
  with assms(1) src have "\<forall>ns \<in> set ((adj g)[unat source :=
        erase_pos (std_find target (adj g ! unat source)) (adj g ! unat source)]).
      \<forall>t \<in> set ns. unat t < length (node_data g)"
    unfolding no_dangling_iff by (rule update_keeps_bound)
  then show ?thesis by (simp add: g' no_dangling_iff)
qed

lemma removeNode_no_dangling:
  assumes "no_dangling g" and "Graph_removeNode g node = Some (g', st)"
  shows "no_dangling g'"
proof (cases "vsize (node_data g) \<le> node")
  case True
  with assms show ?thesis by (simp add: Graph_removeNode_def)
next
  case False
  with assms(2) have k: "unat node < length (node_data g)"
    and g': "g' = g\<lparr>node_data := erase_pos (unat node) (node_data g),
                adj := for_each (reindex node) (erase_pos (unat node) (adj g))\<rparr>"
    by (auto simp: Graph_removeNode_def split: if_splits)
  show ?thesis
    unfolding no_dangling_iff
  proof (intro ballI)
    fix ns' t'
    assume "ns' \<in> set (adj g')" and t': "t' \<in> set ns'"
    then obtain ns where ns: "ns \<in> set (erase_pos (unat node) (adj g))" "ns' = reindex node ns"
      by (auto simp: g' for_each_map)
    from ns(1) have "ns \<in> set (adj g)"
      using set_erase_pos [of "unat node" "adj g"] by auto
    with assms(1) have bnd: "\<forall>t \<in> set ns. unat t < length (node_data g)"
      by (simp add: no_dangling_iff)
    from t' ns(2) have "t' \<in> set (reindex node ns)" by simp
    then have "unat t' < length (node_data g) - 1"
      using bnd k by (rule reindex_bound)
    with k show "unat t' < length (node_data g')"
      by (simp add: g' length_erase_pos)
  qed
qed

lemma apply_no_dangling:
  assumes "no_dangling g" and "Graph_apply g op = Some (g', st)"
  shows "no_dangling g'"
proof (cases op)
  case (AddNode val parent)
  with assms(2) obtain out_node where "Graph_addNode g val parent = Some (g', out_node, st)"
    by (auto split: option.splits)
  with assms(1) show ?thesis by (rule addNode_no_dangling)
next
  case (AddEdge source target)
  with assms show ?thesis by (auto intro: addEdge_no_dangling)
next
  case (RemoveEdge source target)
  with assms show ?thesis by (auto intro: removeEdge_no_dangling)
next
  case (RemoveNode node)
  with assms show ?thesis by (auto intro: removeNode_no_dangling)
qed

lemma run_ops_invariant:
  assumes "lengths_agree g" and "no_dangling g"
  shows "\<exists>g'. run_ops g ops = Some g' \<and> lengths_agree g' \<and> no_dangling g'"
  using assms
proof (induction ops arbitrary: g)
  case Nil
  then show ?case by simp
next
  case (Cons op ops)
  from apply_lengths_agree [OF Cons.prems(1), of op] obtain g1 st where
    step: "Graph_apply g op = Some (g1, st)" and la: "lengths_agree g1"
    by blast
  from Cons.prems(2) step have "no_dangling g1" by (rule apply_no_dangling)
  from Cons.IH [OF la this] step show ?case by simp
qed

lemma empty_invariant: "lengths_agree Graph_empty" "no_dangling Graph_empty"
  by (simp_all add: lengths_agree_def no_dangling_def Graph_empty_def)

lemma reachable_invariant:
  "\<exists>g. run_ops Graph_empty ops = Some g \<and> lengths_agree g \<and> no_dangling g"
  by (rule run_ops_invariant) (rule empty_invariant)+

lemma run_demo_ops: "run_ops Graph_empty demo_ops = Some G2"
  by (simp add: demo_ops_def Graph_empty_def G2_def Graph_addNode_def Let_def vsize_def
      push_back_def SIZE_MAX_def)

subsection \<open>No dangling targets\<close>

text \<open>
  Claim C3. Every sequence of calls of the four operations on the empty graph runs to
  the end, and in the state \<open>g\<close> it reaches every entry of every adjacency list is below
  the node count. Each single operation keeps this: from any state \<open>h\<close> without dangling
  entries, the state \<open>h'\<close> a call returns has none either.
\<close>

theorem no_dangling_invariant:
  "(\<exists>g. run_ops Graph_empty ops = Some g)
   \<and> (run_ops Graph_empty ops = Some g \<longrightarrow>
        (\<forall>ns \<in> set (adj g). \<forall>t \<in> set ns. unat t < length (node_data g)))
   \<and> (no_dangling h \<and> Graph_apply h op = Some (h', st) \<longrightarrow> no_dangling h')"
proof (intro conjI impI)
  from reachable_invariant [of ops] show "\<exists>g. run_ops Graph_empty ops = Some g"
    by blast
next
  assume "run_ops Graph_empty ops = Some g"
  with reachable_invariant [of ops] have "no_dangling g" by auto
  then show "\<forall>ns \<in> set (adj g). \<forall>t \<in> set ns. unat t < length (node_data g)"
    by (simp add: no_dangling_iff)
next
  assume "no_dangling h \<and> Graph_apply h op = Some (h', st)"
  then show "no_dangling h'" by (auto intro: apply_no_dangling)
qed

theorem no_dangling_invariant_witness:
  "run_ops Graph_empty demo_ops = Some G2
   \<and> no_dangling G2 \<and> Graph_apply G2 (RemoveNode 1) = Some (G1, GRAPH_SUCCESS)
   \<and> no_dangling G1"
proof -
  have a: "no_dangling G2"
    by (simp add: no_dangling_def G2_def)
  have b: "Graph_apply G2 (RemoveNode 1) = Some (G1, GRAPH_SUCCESS)"
    by (simp add: Graph_removeNode_def G2_def G1_def vsize_def reindex_def word_le_nat_alt
        word_less_nat_alt)
  from run_demo_ops a b
    no_dangling_invariant [of demo_ops G2 G2 "RemoveNode 1" G1 GRAPH_SUCCESS]
  show ?thesis by simp
qed

subsection \<open>One adjacency list per node\<close>

text \<open>
  Claim C8. Every sequence of calls of the four operations on the empty graph runs to
  the end, and the state it reaches has as many adjacency lists as nodes. Each single
  operation keeps this: from any state \<open>h\<close> with as many adjacency lists as nodes, every
  call returns, and returns a state with the same property.
\<close>

theorem lengths_agree_invariant:
  "(\<exists>g. run_ops Graph_empty ops = Some g)
   \<and> (run_ops Graph_empty ops = Some g \<longrightarrow> length (adj g) = length (node_data g))
   \<and> (length (adj h) = length (node_data h) \<longrightarrow>
        (\<exists>h' st. Graph_apply h op = Some (h', st) \<and> length (adj h') = length (node_data h')))"
proof (intro conjI impI)
  from reachable_invariant [of ops] show "\<exists>g. run_ops Graph_empty ops = Some g"
    by blast
next
  assume "run_ops Graph_empty ops = Some g"
  with reachable_invariant [of ops] show "length (adj g) = length (node_data g)"
    by (auto simp: lengths_agree_def)
next
  assume "length (adj h) = length (node_data h)"
  then have "lengths_agree h" by (simp add: lengths_agree_def)
  from apply_lengths_agree [OF this, of op]
  show "\<exists>h' st. Graph_apply h op = Some (h', st) \<and> length (adj h') = length (node_data h')"
    by (simp add: lengths_agree_def)
qed

theorem lengths_agree_invariant_witness:
  "run_ops Graph_empty demo_ops2 = Some G1b
   \<and> length (adj G1b) = length (node_data G1b)
   \<and> (\<exists>h' st. Graph_apply G1b (AddNode 7.5 0) = Some (h', st)
        \<and> length (adj h') = length (node_data h'))"
proof -
  have a: "run_ops Graph_empty demo_ops2 = Some G1b"
    by (simp add: demo_ops2_def Graph_empty_def G1b_def Graph_addNode_def Graph_removeNode_def
        Let_def vsize_def push_back_def SIZE_MAX_def reindex_def)
  have b: "length (adj G1b) = length (node_data G1b)"
    by (simp add: G1b_def)
  from a b lengths_agree_invariant [of demo_ops2 G1b G1b "AddNode 7.5 0"]
  show ?thesis by simp
qed

subsection \<open>Removing an edge to a node that does not exist\<close>

text \<open>
  Claim C10. In a state reached from the empty graph, with \<open>n\<close> nodes,
  \<open>Graph_removeEdge\<close> with \<open>source < n\<close> and \<open>target \<ge> n\<close> reports
  \<open>GRAPH_ERR_INVALID_EDGE\<close> and returns the graph as it was. The function never compares
  \<open>target\<close> with the node count; the search fails because no adjacency list of such a
  state holds an entry that large.
\<close>

theorem removeEdge_target_out_of_range:
  assumes "run_ops Graph_empty ops = Some g"
    and "unat source < length (node_data g)"
    and "length (node_data g) \<le> unat target"
  shows "Graph_removeEdge g source target = Some (g, GRAPH_ERR_INVALID_EDGE)"
proof (cases "vsize (adj g) \<le> source")
  case True
  then show ?thesis by (simp add: Graph_removeEdge_def)
next
  case False
  then have src: "unat source < length (adj g)" by (simp add: less_vsizeD)
  from assms(1) reachable_invariant [of ops] have "no_dangling g" by auto
  moreover from src have "adj g ! unat source \<in> set (adj g)" by simp
  ultimately have "\<forall>t \<in> set (adj g ! unat source). unat t < length (node_data g)"
    by (simp add: no_dangling_iff)
  with assms(3) have "target \<notin> set (adj g ! unat source)" by auto
  then have "std_find target (adj g ! unat source) = length (adj g ! unat source)"
    by (simp add: std_find_end)
  with False src show ?thesis by (simp add: Graph_removeEdge_def Let_def)
qed

theorem removeEdge_target_out_of_range_witness:
  "run_ops Graph_empty demo_ops3 = Some G2e
   \<and> unat (0::size_t) < length (node_data G2e)
   \<and> length (node_data G2e) \<le> unat (2::size_t)
   \<and> Graph_removeEdge G2e 0 2 = Some (G2e, GRAPH_ERR_INVALID_EDGE)"
proof -
  have a: "run_ops Graph_empty demo_ops3 = Some G2e"
    by (simp add: demo_ops3_def Graph_empty_def G2e_def Graph_addNode_def Graph_addEdge_def
        Let_def vsize_def push_back_def SIZE_MAX_def word_le_nat_alt)
  have b: "unat (0::size_t) < length (node_data G2e)"
    by (simp add: G2e_def)
  have c: "length (node_data G2e) \<le> unat (2::size_t)"
    by (simp add: G2e_def)
  from a b c removeEdge_target_out_of_range [OF a b c] show ?thesis by simp
qed

section \<open>Frame of the edge operations\<close>

text \<open>
  Claim C9. A successful \<open>Graph_addEdge\<close> or \<open>Graph_removeEdge\<close> leaves the node
  values, the number of adjacency lists, and the adjacency list of every node other than
  \<open>source\<close> as they were.
\<close>

theorem edge_ops_frame:
  "(Graph_addEdge g source target = Some (g', GRAPH_SUCCESS) \<longrightarrow>
      node_data g' = node_data g \<and> length (adj g') = length (adj g)
      \<and> (\<forall>i. i \<noteq> unat source \<longrightarrow> adj g' ! i = adj g ! i))
   \<and> (Graph_removeEdge g source target = Some (g'', GRAPH_SUCCESS) \<longrightarrow>
      node_data g'' = node_data g \<and> length (adj g'') = length (adj g)
      \<and> (\<forall>i. i \<noteq> unat source \<longrightarrow> adj g'' ! i = adj g ! i))"
  by (auto simp: Graph_addEdge_def Graph_removeEdge_def Let_def split: if_splits)

theorem edge_ops_frame_witness:
  "Graph_addEdge G2 0 1 = Some (G2e, GRAPH_SUCCESS)
   \<and> Graph_removeEdge G2e 0 1 = Some (G2, GRAPH_SUCCESS)
   \<and> node_data G2e = node_data G2 \<and> length (adj G2e) = length (adj G2)
   \<and> adj G2e ! 1 = adj G2 ! 1"
proof -
  have a: "Graph_addEdge G2 0 1 = Some (G2e, GRAPH_SUCCESS)"
    by (simp add: Graph_addEdge_def G2_def G2e_def vsize_def push_back_def word_le_nat_alt)
  have b: "Graph_removeEdge G2e 0 1 = Some (G2, GRAPH_SUCCESS)"
    by (simp add: Graph_removeEdge_def G2_def G2e_def vsize_def Let_def word_le_nat_alt)
  from a b edge_ops_frame [of G2 0 1 G2e G2] edge_ops_frame [of G2e 0 1 G2 G2]
  show ?thesis by simp
qed

section \<open>Graph_addNode\<close>

lemma unat_SIZE_MAX: "unat SIZE_MAX = 2 ^ 64 - 1"
  by (simp add: SIZE_MAX_def)

lemma addNode_cases:
  assumes "lengths_agree g" and "representable g"
  shows "Graph_addNode g val parent =
     Some (if unat parent < length (node_data g) then
             (g\<lparr>node_data := node_data g @ [val],
                adj := (adj g)[unat parent :=
                         adj g ! unat parent @ [vsize (node_data g)]] @ [[]]\<rparr>,
              vsize (node_data g), GRAPH_SUCCESS)
           else
             (g\<lparr>node_data := node_data g @ [val], adj := adj g @ [[]]\<rparr>,
              vsize (node_data g),
              if parent = SIZE_MAX then GRAPH_SUCCESS else GRAPH_ERR_INVALID_PARENT))"
proof -
  from assms have len: "length (node_data g) < 2 ^ 64"
    and eq: "length (adj g) = length (node_data g)"
    by (simp_all add: lengths_agree_def representable_def)
  have lt: "parent < vsize (node_data g) \<longleftrightarrow> unat parent < length (node_data g)"
    using len by (rule less_vsize_iff)
  have ne: "parent \<noteq> SIZE_MAX" if "unat parent < length (node_data g)"
    using that len by (auto simp: unat_SIZE_MAX)
  show ?thesis
  proof (cases "unat parent < length (node_data g)")
    case True
    with ne eq show ?thesis
      by (simp add: Graph_addNode_def Let_def push_back_def lt nth_append list_update_append1)
  next
    case False
    then show ?thesis
      by (simp add: Graph_addNode_def Let_def push_back_def lt)
  qed
qed

text \<open>
  Claim C2. In a graph state with \<open>n\<close> nodes, \<open>Graph_addNode\<close> always appends the
  value and an empty adjacency list and returns \<open>n\<close> as the new index, whatever
  \<open>parent\<close> is. With the sentinel \<open>SIZE_MAX\<close> as parent the status is
  \<open>GRAPH_SUCCESS\<close> and no edge is added; with \<open>parent < n\<close> the status is
  \<open>GRAPH_SUCCESS\<close> and the new index is appended to the adjacency list of
  \<open>parent\<close>; with \<open>parent \<ge> n\<close> other than the sentinel the status is
  \<open>GRAPH_ERR_INVALID_PARENT\<close>, no edge is added and the new node stays.
\<close>

theorem addNode_spec:
  assumes "lengths_agree g" and "representable g"
  shows "\<exists>g' new_index st.
      Graph_addNode g val parent = Some (g', new_index, st)
      \<and> node_data g' = node_data g @ [val]
      \<and> length (adj g') = Suc (length (adj g))
      \<and> unat new_index = length (node_data g)
      \<and> (parent = SIZE_MAX \<longrightarrow> st = GRAPH_SUCCESS \<and> adj g' = adj g @ [[]])
      \<and> (unat parent < length (node_data g) \<longrightarrow>
           st = GRAPH_SUCCESS
           \<and> adj g' = (adj g)[unat parent := adj g ! unat parent @ [new_index]] @ [[]])
      \<and> (length (node_data g) \<le> unat parent \<and> parent \<noteq> SIZE_MAX \<longrightarrow>
           st = GRAPH_ERR_INVALID_PARENT \<and> adj g' = adj g @ [[]])"
proof -
  from assms(2) have len: "length (node_data g) < 2 ^ 64"
    by (simp add: representable_def)
  then have ni: "unat (vsize (node_data g)) = length (node_data g)"
    by (rule unat_vsize)
  have sentinel: "\<not> unat SIZE_MAX < length (node_data g)"
    using len by (simp add: unat_SIZE_MAX)
  show ?thesis
  proof (cases "unat parent < length (node_data g)")
    case True
    with sentinel have "parent \<noteq> SIZE_MAX" by auto
    with True ni show ?thesis
      by (simp add: addNode_cases [OF assms])
  next
    case False
    with ni show ?thesis
      by (simp add: addNode_cases [OF assms])
  qed
qed

theorem addNode_spec_witness:
  "lengths_agree G2 \<and> representable G2
   \<and> Graph_addNode G2 7.5 SIZE_MAX =
       Some (\<lparr>node_data = [1.23, 4.56, 7.5], adj = [[1], [], []]\<rparr>, 2, GRAPH_SUCCESS)
   \<and> Graph_addNode G2 7.5 1 =
       Some (\<lparr>node_data = [1.23, 4.56, 7.5], adj = [[1], [2], []]\<rparr>, 2, GRAPH_SUCCESS)
   \<and> Graph_addNode G2 7.5 2 =
       Some (\<lparr>node_data = [1.23, 4.56, 7.5], adj = [[1], [], []]\<rparr>, 2,
             GRAPH_ERR_INVALID_PARENT)"
proof -
  have wf: "lengths_agree G2" "representable G2"
    by (simp_all add: lengths_agree_def representable_def G2_def)
  have a: "Graph_addNode G2 7.5 SIZE_MAX =
      Some (\<lparr>node_data = [1.23, 4.56, 7.5], adj = [[1], [], []]\<rparr>, 2, GRAPH_SUCCESS)"
    by (simp add: Graph_addNode_def G2_def Let_def vsize_def push_back_def)
  have b: "Graph_addNode G2 7.5 1 =
      Some (\<lparr>node_data = [1.23, 4.56, 7.5], adj = [[1], [2], []]\<rparr>, 2, GRAPH_SUCCESS)"
    by (simp add: Graph_addNode_def G2_def Let_def vsize_def push_back_def SIZE_MAX_def
        word_less_nat_alt)
  have c: "Graph_addNode G2 7.5 2 =
      Some (\<lparr>node_data = [1.23, 4.56, 7.5], adj = [[1], [], []]\<rparr>, 2,
            GRAPH_ERR_INVALID_PARENT)"
    by (simp add: Graph_addNode_def G2_def Let_def vsize_def push_back_def SIZE_MAX_def
        word_less_nat_alt)
  show ?thesis
    using wf a b c addNode_spec [OF wf, of "7.5" SIZE_MAX] addNode_spec [OF wf, of "7.5" 1]
      addNode_spec [OF wf, of "7.5" 2]
    by simp
qed

section \<open>Graph_removeNode\<close>

lemma removeNode_valid:
  assumes "lengths_agree g" and "representable g" and "unat k < length (node_data g)"
  shows "Graph_removeNode g k =
     Some (g\<lparr>node_data := erase_pos (unat k) (node_data g),
             adj := map (reindex k) (erase_pos (unat k) (adj g))\<rparr>, GRAPH_SUCCESS)"
  using assms
  by (simp add: Graph_removeNode_def lengths_agree_def representable_def ge_vsize_iff
      for_each_map)

lemma reindex_map_filter:
  "reindex k ns = map (\<lambda>t. if k < t then t - 1 else t) (filter (\<lambda>t. t \<noteq> k) ns)"
  by (simp add: reindex_def for_each_map std_remove_filter)

text \<open>
  Claim C1. In a graph state with \<open>n\<close> nodes and for \<open>k < n\<close>,
  \<open>Graph_removeNode\<close> reports \<open>GRAPH_SUCCESS\<close> and leaves \<open>n - 1\<close> nodes: the
  value and the adjacency list of node \<open>k\<close> are gone and the others keep their order.
  Each remaining adjacency list is the old one with every occurrence of \<open>k\<close> dropped,
  every kept target above \<open>k\<close> lowered by one, and every kept target below \<open>k\<close> as
  it was.
\<close>

theorem removeNode_spec:
  assumes "lengths_agree g" and "representable g" and "unat k < length (node_data g)"
  shows "\<exists>g'. Graph_removeNode g k = Some (g', GRAPH_SUCCESS)
      \<and> length (node_data g') = length (node_data g) - 1
      \<and> length (adj g') = length (node_data g) - 1
      \<and> (\<forall>i < length (node_data g) - 1.
            node_data g' ! i = node_data g ! old_position k i
          \<and> adj g' ! i = map (\<lambda>t. if k < t then t - 1 else t)
                            (filter (\<lambda>t. t \<noteq> k) (adj g ! old_position k i)))"
proof -
  let ?g' = "g\<lparr>node_data := erase_pos (unat k) (node_data g),
               adj := map (reindex k) (erase_pos (unat k) (adj g))\<rparr>"
  from assms have kadj: "unat k < length (adj g)"
    and eq: "length (adj g) = length (node_data g)"
    by (simp_all add: lengths_agree_def)
  have run: "Graph_removeNode g k = Some (?g', GRAPH_SUCCESS)"
    using assms by (rule removeNode_valid)
  have l1: "length (node_data ?g') = length (node_data g) - 1"
    using assms(3) by (simp add: length_erase_pos)
  have l2: "length (adj ?g') = length (node_data g) - 1"
    using kadj eq by (simp add: length_erase_pos)
  have el: "node_data ?g' ! i = node_data g ! old_position k i
      \<and> adj ?g' ! i = map (\<lambda>t. if k < t then t - 1 else t)
                        (filter (\<lambda>t. t \<noteq> k) (adj g ! old_position k i))"
    if "i < length (node_data g) - 1" for i
  proof -
    from that assms(3) have "erase_pos (unat k) (node_data g) ! i = node_data g ! old_position k i"
      by (simp add: nth_erase_pos old_position_def)
    moreover from that kadj eq have "erase_pos (unat k) (adj g) ! i = adj g ! old_position k i"
      by (simp add: nth_erase_pos old_position_def)
    moreover from that kadj eq have "i < length (erase_pos (unat k) (adj g))"
      by (simp add: length_erase_pos)
    ultimately show ?thesis
      by (simp add: reindex_map_filter)
  qed
  from run l1 l2 el show ?thesis by blast
qed

lemma removeNode_G3: "Graph_removeNode G3 1 = Some (G3_without_1, GRAPH_SUCCESS)"
  by (simp add: Graph_removeNode_def G3_def G3_without_1_def vsize_def reindex_def
      word_le_nat_alt word_less_nat_alt)

theorem removeNode_spec_witness:
  "lengths_agree G3 \<and> representable G3 \<and> unat (1::size_t) < length (node_data G3)
   \<and> Graph_removeNode G3 1 = Some (G3_without_1, GRAPH_SUCCESS)
   \<and> length (node_data G3_without_1) = length (node_data G3) - 1
   \<and> length (adj G3_without_1) = length (node_data G3) - 1
   \<and> node_data G3_without_1 ! 1 = node_data G3 ! old_position 1 1
   \<and> adj G3_without_1 ! 1 = map (\<lambda>t. if 1 < t then t - 1 else t)
                               (filter (\<lambda>t. t \<noteq> 1) (adj G3 ! old_position 1 1))"
proof -
  have wf: "lengths_agree G3" "representable G3" "unat (1::size_t) < length (node_data G3)"
    by (simp_all add: lengths_agree_def representable_def G3_def)
  have i: "(1::nat) < length (node_data G3) - 1"
    by (simp add: G3_def)
  from removeNode_spec [OF wf] removeNode_G3 i have
    "length (node_data G3_without_1) = length (node_data G3) - 1
     \<and> length (adj G3_without_1) = length (node_data G3) - 1
     \<and> node_data G3_without_1 ! 1 = node_data G3 ! old_position 1 1
     \<and> adj G3_without_1 ! 1 = map (\<lambda>t. if 1 < t then t - 1 else t)
                                 (filter (\<lambda>t. t \<noteq> 1) (adj G3 ! old_position 1 1))"
    by auto
  with wf removeNode_G3 show ?thesis by simp
qed

subsection \<open>The removed index after renumbering\<close>

text \<open>
  Claim C4 says that after a successful removal of node \<open>k\<close> no adjacency list contains
  \<open>k\<close>. That fails whenever an edge pointed to node \<open>k + 1\<close>: the renumbering turns
  that target into \<open>k\<close>. Three nodes with one edge from node 0 to node 2, and node 1
  removed: the list of node 0 becomes \<open>[1]\<close>.
\<close>

theorem removeNode_index_reappears:
  "run_ops Graph_empty demo_ops4 = Some G3c
   \<and> Graph_removeNode G3c 1 = Some (G3c_without_1, GRAPH_SUCCESS)
   \<and> 1 \<in> set (adj G3c_without_1 ! 0)"
  by (simp add: demo_ops4_def Graph_empty_def G3c_def G3c_without_1_def Graph_addNode_def
      Graph_removeNode_def Let_def vsize_def push_back_def SIZE_MAX_def reindex_def
      word_le_nat_alt word_less_nat_alt)

lemma succ_after_index:
  fixes k :: size_t
  assumes "unat k < n" and "n < 2 ^ 64"
  shows "k < k + 1" and "k + 1 \<noteq> k" and "k + 1 - 1 = k"
proof -
  from assms have "unat k + 1 < 2 ^ 64" by simp
  then have "unat (k + 1) = unat k + 1"
    by (simp add: unat_word_ariths)
  then show "k < k + 1" by (simp add: word_less_nat_alt)
  then show "k + 1 \<noteq> k" by simp
  show "k + 1 - 1 = k" by simp
qed

lemma pred_eq_index:
  fixes k t :: size_t
  assumes "k < t" and "t - 1 = k"
  shows "t = k + 1"
  using assms by auto

text \<open>
  Claim C4, amended. After a successful removal of node \<open>k\<close>, each remaining adjacency
  list has one entry for every old entry different from \<open>k\<close>, in the same order: an old
  target above \<open>k\<close> appears lowered by one (without wrapping around), an old target
  below \<open>k\<close> appears unchanged. The number \<open>k\<close> occurs in a list afterwards exactly
  when \<open>k + 1\<close> occurred in it before, so no reference to the removed node survives
  and every occurrence of \<open>k\<close> afterwards denotes the node that was \<open>k + 1\<close>.
\<close>

theorem removeNode_reindexing:
  assumes "lengths_agree g" and "representable g" and "unat k < length (node_data g)"
  shows "\<exists>g'. Graph_removeNode g k = Some (g', GRAPH_SUCCESS)
      \<and> (\<forall>i < length (node_data g) - 1.
            length (adj g' ! i) = length (filter (\<lambda>t. t \<noteq> k) (adj g ! old_position k i))
          \<and> (\<forall>j < length (adj g' ! i).
                (k < filter (\<lambda>t. t \<noteq> k) (adj g ! old_position k i) ! j \<longrightarrow>
                   adj g' ! i ! j = filter (\<lambda>t. t \<noteq> k) (adj g ! old_position k i) ! j - 1
                 \<and> unat (adj g' ! i ! j) =
                     unat (filter (\<lambda>t. t \<noteq> k) (adj g ! old_position k i) ! j) - 1)
              \<and> (filter (\<lambda>t. t \<noteq> k) (adj g ! old_position k i) ! j < k \<longrightarrow>
                   adj g' ! i ! j = filter (\<lambda>t. t \<noteq> k) (adj g ! old_position k i) ! j))
          \<and> (k \<in> set (adj g' ! i) \<longleftrightarrow> k + 1 \<in> set (adj g ! old_position k i)))"
proof -
  let ?g' = "g\<lparr>node_data := erase_pos (unat k) (node_data g),
               adj := map (reindex k) (erase_pos (unat k) (adj g))\<rparr>"
  let ?dec = "\<lambda>t. if k < t then t - 1 else t"
  from assms have kadj: "unat k < length (adj g)"
    and eq: "length (adj g) = length (node_data g)"
    and len: "length (node_data g) < 2 ^ 64"
    by (simp_all add: lengths_agree_def representable_def)
  note succ = succ_after_index [OF assms(3) len]
  have run: "Graph_removeNode g k = Some (?g', GRAPH_SUCCESS)"
    using assms by (rule removeNode_valid)
  have el: "length (adj ?g' ! i) = length (filter (\<lambda>t. t \<noteq> k) (adj g ! old_position k i))
          \<and> (\<forall>j < length (adj ?g' ! i).
                (k < filter (\<lambda>t. t \<noteq> k) (adj g ! old_position k i) ! j \<longrightarrow>
                   adj ?g' ! i ! j = filter (\<lambda>t. t \<noteq> k) (adj g ! old_position k i) ! j - 1
                 \<and> unat (adj ?g' ! i ! j) =
                     unat (filter (\<lambda>t. t \<noteq> k) (adj g ! old_position k i) ! j) - 1)
              \<and> (filter (\<lambda>t. t \<noteq> k) (adj g ! old_position k i) ! j < k \<longrightarrow>
                   adj ?g' ! i ! j = filter (\<lambda>t. t \<noteq> k) (adj g ! old_position k i) ! j))
          \<and> (k \<in> set (adj ?g' ! i) \<longleftrightarrow> k + 1 \<in> set (adj g ! old_position k i))"
    if i: "i < length (node_data g) - 1" for i
  proof -
    let ?old = "adj g ! old_position k i"
    let ?kept = "filter (\<lambda>t. t \<noteq> k) ?old"
    from i kadj eq have "erase_pos (unat k) (adj g) ! i = ?old"
      by (simp add: nth_erase_pos old_position_def)
    moreover from i kadj eq have "i < length (erase_pos (unat k) (adj g))"
      by (simp add: length_erase_pos)
    ultimately have new: "adj ?g' ! i = map ?dec ?kept"
      by (simp add: reindex_map_filter)
    have a: "length (adj ?g' ! i) = length ?kept"
      by (simp only: new length_map)
    have b: "(k < ?kept ! j \<longrightarrow> adj ?g' ! i ! j = ?kept ! j - 1
                \<and> unat (adj ?g' ! i ! j) = unat (?kept ! j) - 1)
           \<and> (?kept ! j < k \<longrightarrow> adj ?g' ! i ! j = ?kept ! j)"
      if "j < length (adj ?g' ! i)" for j
    proof -
      from that a have "j < length ?kept" by simp
      then have "adj ?g' ! i ! j = ?dec (?kept ! j)"
        by (simp only: new nth_map)
      then show ?thesis
        by (auto simp: unat_minus_one_gt)
    qed
    have c: "k \<in> set (adj ?g' ! i) \<longleftrightarrow> k + 1 \<in> set ?old"
    proof
      assume "k \<in> set (adj ?g' ! i)"
      then obtain t where t: "t \<in> set ?old" "t \<noteq> k" "k = ?dec t"
        unfolding new by auto
      then have "k < t" by (cases "k < t") auto
      with t(3) have "t = k + 1" by simp
      with t(1) show "k + 1 \<in> set ?old" by simp
    next
      assume "k + 1 \<in> set ?old"
      with succ(2) have "k + 1 \<in> set ?kept" by simp
      then have "?dec (k + 1) \<in> set (map ?dec ?kept)"
        by (simp only: set_map) (rule imageI)
      with succ(1) show "k \<in> set (adj ?g' ! i)"
        unfolding new by simp
    qed
    from a b c show ?thesis by blast
  qed
  from run el show ?thesis by blast
qed

theorem removeNode_reindexing_witness:
  "lengths_agree G3c \<and> representable G3c \<and> unat (1::size_t) < length (node_data G3c)
   \<and> Graph_removeNode G3c 1 = Some (G3c_without_1, GRAPH_SUCCESS)
   \<and> length (adj G3c_without_1 ! 0) =
       length (filter (\<lambda>t. t \<noteq> 1) (adj G3c ! old_position 1 0))
   \<and> 1 \<in> set (adj G3c_without_1 ! 0) \<and> 1 + 1 \<in> set (adj G3c ! old_position 1 0)"
proof -
  have wf: "lengths_agree G3c" "representable G3c" "unat (1::size_t) < length (node_data G3c)"
    by (simp_all add: lengths_agree_def representable_def G3c_def)
  have run: "Graph_removeNode G3c 1 = Some (G3c_without_1, GRAPH_SUCCESS)"
    by (simp add: G3c_def G3c_without_1_def Graph_removeNode_def vsize_def reindex_def
        word_le_nat_alt word_less_nat_alt)
  have i: "(0::nat) < length (node_data G3c) - 1"
    by (simp add: G3c_def)
  have old: "1 + 1 \<in> set (adj G3c ! old_position 1 0)"
    by (simp add: G3c_def old_position_def)
  from removeNode_reindexing [OF wf] run i have
    "length (adj G3c_without_1 ! 0) =
       length (filter (\<lambda>t. t \<noteq> 1) (adj G3c ! old_position 1 0))
     \<and> (1 \<in> set (adj G3c_without_1 ! 0) \<longleftrightarrow> 1 + 1 \<in> set (adj G3c ! old_position 1 0))"
    by auto
  with wf run old show ?thesis by simp
qed

end
